theory Spec2Isabelle
  imports Complex_Main
begin

section \<open>JavaScript numbers\<close>

text \<open>
  The viewer computes with JavaScript numbers, that is with IEEE 754 double precision.
  \<open>Num r\<close> is the finite number of value \<open>r\<close>, with \<open>Num 0\<close> the positive zero;
  the negative zero, the two infinities and NaN are values of their own. The arithmetic
  operations compute the exact real result and round it to the nearest double, as the
  language definition says.
\<close>

datatype jsnum = Num real | NegZero | PosInf | NegInf | NaN

subsection \<open>Rounding to the nearest double\<close>

text \<open>The nearest integer, the even one on a tie.\<close>

definition round_even :: "real \<Rightarrow> int" where
  "round_even q =
     (let f = \<lfloor>q\<rfloor>; d = q - of_int f
      in if d < 1 / 2 then f else if 1 / 2 < d then f + 1 else if even f then f else f + 1)"

text \<open>
  The doubles around \<open>v\<close> are the integer multiples of \<open>2 powi e\<close>, where \<open>e\<close> is
  52 below the binary exponent of \<open>v\<close>, and \<open>- 1074\<close> in the subnormal range.
\<close>

definition ulp_exponent :: "real \<Rightarrow> int" where
  "ulp_exponent v = max \<lfloor>log 2 \<bar>v\<bar>\<rfloor> (- 1022) - 52"

text \<open>
  The number value of a real: the nearest double, the one with the even significand on a
  tie; an infinity when that is of magnitude \<open>2 ^ 1024\<close>; a zero with the sign of \<open>v\<close>
  when it is zero.
\<close>

definition js_round :: "real \<Rightarrow> jsnum" where
  "js_round v =
     (if v = 0 then Num 0
      else
        (let e = ulp_exponent v;
             r = of_int (round_even (v / 2 powi e)) * 2 powi e
         in if 2 ^ 1024 \<le> \<bar>r\<bar> then (if v < 0 then NegInf else PosInf)
            else if r = 0 then (if v < 0 then NegZero else Num 0)
            else Num r))"

text \<open>A number whose value is a double: every number that the program computes is one.\<close>

definition is_double :: "jsnum \<Rightarrow> bool" where
  "is_double v = (case v of Num r \<Rightarrow> js_round r = Num r | _ \<Rightarrow> True)"

subsection \<open>Arithmetic\<close>

text \<open>The sign of a number that is not NaN, the value of a finite one.\<close>

fun js_negative :: "jsnum \<Rightarrow> bool" where
  "js_negative (Num a) = (a < 0)"
| "js_negative NegZero = True"
| "js_negative NegInf = True"
| "js_negative _ = False"

fun js_value :: "jsnum \<Rightarrow> real" where
  "js_value (Num a) = a"
| "js_value _ = 0"

fun js_is_zero :: "jsnum \<Rightarrow> bool" where
  "js_is_zero (Num a) = (a = 0)"
| "js_is_zero NegZero = True"
| "js_is_zero _ = False"

fun js_infinite :: "jsnum \<Rightarrow> bool" where
  "js_infinite PosInf = True"
| "js_infinite NegInf = True"
| "js_infinite _ = False"

definition js_signed_inf :: "bool \<Rightarrow> jsnum" where
  "js_signed_inf neg = (if neg then NegInf else PosInf)"

definition js_signed_zero :: "bool \<Rightarrow> jsnum" where
  "js_signed_zero neg = (if neg then NegZero else Num 0)"

text \<open>Unary minus.\<close>

fun js_neg :: "jsnum \<Rightarrow> jsnum" where
  "js_neg (Num a) = (if a = 0 then NegZero else Num (- a))"
| "js_neg NegZero = Num 0"
| "js_neg PosInf = NegInf"
| "js_neg NegInf = PosInf"
| "js_neg NaN = NaN"

definition js_add :: "jsnum \<Rightarrow> jsnum \<Rightarrow> jsnum" where
  "js_add a b =
     (if a = NaN \<or> b = NaN then NaN
      else if js_infinite a \<and> js_infinite b then (if a = b then a else NaN)
      else if js_infinite a then a
      else if js_infinite b then b
      else if a = NegZero \<and> b = NegZero then NegZero
      else js_round (js_value a + js_value b))"

definition js_sub :: "jsnum \<Rightarrow> jsnum \<Rightarrow> jsnum" where
  "js_sub a b = js_add a (js_neg b)"

definition js_mul :: "jsnum \<Rightarrow> jsnum \<Rightarrow> jsnum" where
  "js_mul a b =
     (if a = NaN \<or> b = NaN then NaN
      else if js_infinite a \<or> js_infinite b then
        (if js_is_zero a \<or> js_is_zero b then NaN
         else js_signed_inf (js_negative a \<noteq> js_negative b))
      else if js_is_zero a \<or> js_is_zero b then js_signed_zero (js_negative a \<noteq> js_negative b)
      else js_round (js_value a * js_value b))"

definition js_div :: "jsnum \<Rightarrow> jsnum \<Rightarrow> jsnum" where
  "js_div a b =
     (if a = NaN \<or> b = NaN then NaN
      else if js_infinite a then
        (if js_infinite b then NaN else js_signed_inf (js_negative a \<noteq> js_negative b))
      else if js_infinite b then js_signed_zero (js_negative a \<noteq> js_negative b)
      else if js_is_zero a then
        (if js_is_zero b then NaN else js_signed_zero (js_negative a \<noteq> js_negative b))
      else if js_is_zero b then js_signed_inf (js_negative a \<noteq> js_negative b)
      else js_round (js_value a / js_value b))"

text \<open>
  \<^verbatim>\<open>v ** 2\<close>. The language leaves the accuracy of \<^verbatim>\<open>**\<close> on finite non-zero numbers
  to the implementation; the square is taken to be the rounded exact square, which is
  what an implementation that multiplies \<open>v\<close> by itself returns.
\<close>

definition js_sq :: "jsnum \<Rightarrow> jsnum" where
  "js_sq a =
     (if a = NaN then NaN
      else if js_infinite a then PosInf
      else if js_is_zero a then Num 0
      else js_round ((js_value a) ^ 2))"

text \<open>\<^verbatim>\<open>Math.sqrt\<close>\<close>

fun Math_sqrt :: "jsnum \<Rightarrow> jsnum" where
  "Math_sqrt (Num a) = (if a = 0 then Num 0 else if a < 0 then NaN else js_round (sqrt a))"
| "Math_sqrt NegZero = NegZero"
| "Math_sqrt PosInf = PosInf"
| "Math_sqrt _ = NaN"



subsection \<open>\<^verbatim>\<open>Number.prototype.toFixed(2)\<close>\<close>





section \<open>Data model of the viewer\<close>

text \<open>\<^verbatim>\<open>interface Point\<close>, \<^verbatim>\<open>interface Measurement\<close>. Page numbers are \<^verbatim>\<open>index + 1\<close>.\<close>

record point =
  x :: jsnum
  y :: jsnum
  page :: nat

record measurement =
  id' :: int
  points :: "point \<times> point"
  pixelDistance :: jsnum

text \<open>\<^verbatim>\<open>type PDFFile = string | File | null\<close>; a \<^verbatim>\<open>File\<close> is known by its name.\<close>

datatype pdffile = Url string | FileObject string

text \<open>
  \<^verbatim>\<open>const drawingCalibrations: Record<string, number>\<close>. A numeric literal denotes
  the double nearest to its decimal value.
\<close>

definition drawingCalibrations :: "string \<rightharpoonup> jsnum" where
  "drawingCalibrations =
     map_of [(''125'', js_round 0.1661), (''100'', js_round 0.125), (''75'', js_round 0.0933)]"

definition defaultCalibrationValue :: string where
  "defaultCalibrationValue = ''125''"

text \<open>
  The state of the component \<^verbatim>\<open>PDFViewer\<close>: one field for each \<^verbatim>\<open>useState\<close> that the
  handlers read or write (the two layout widths are left out).
\<close>

record viewer =
  file' :: "pdffile option"
  numPages :: "nat option"
  scale :: jsnum
  scaleFactor :: "jsnum option"
  measurements :: "measurement list"
  history :: "measurement list list"
  redoStack :: "measurement list list"
  hoveredId :: "int option"
  isDragging :: bool
  dragStart :: "point option"
  dragEnd :: "point option"
  dragPage :: "nat option"

text \<open>The initial values given to \<^verbatim>\<open>useState\<close>.\<close>

definition init :: viewer where
  "init =
     \<lparr>file' = Some (Url ''/Level1 Floor Plan - Hydronic.pdf''),
      numPages = None,
      scale = js_round 1.25,
      scaleFactor = drawingCalibrations defaultCalibrationValue,
      measurements = [],
      history = [],
      redoStack = [],
      hoveredId = None,
      isDragging = False,
      dragStart = None,
      dragEnd = None,
      dragPage = None\<rparr>"

section \<open>Handlers\<close>

text \<open>
  Each handler runs on the state of the latest render and returns the state after its
  updates. A handler that could throw returns a sum, the error on the left; no handler of
  the source contains a \<^verbatim>\<open>throw\<close>, so the two pointer handlers, whose result type has
  an error side, never take it. The error is the one that the specification names for a
  zoom scale that is not positive.
\<close>

datatype error = InvalidScaleError

text \<open>
  What a pointer event carries: \<^verbatim>\<open>e.clientX\<close>, \<^verbatim>\<open>e.clientY\<close> and the \<^verbatim>\<open>left\<close> and
  \<^verbatim>\<open>top\<close> of \<^verbatim>\<open>e.currentTarget.getBoundingClientRect()\<close>.
\<close>

record pointer =
  clientX :: jsnum
  clientY :: jsnum
  rect_left :: jsnum
  rect_top :: jsnum

definition onFileChange :: "pdffile option \<Rightarrow> viewer \<Rightarrow> viewer" where
  "onFileChange nextFile s =
     s\<lparr>file' := nextFile,
       numPages := None,
       measurements := [],
       scaleFactor := None,
       history := [],
       redoStack := []\<rparr>"

definition onDocumentLoadSuccess :: "nat \<Rightarrow> viewer \<Rightarrow> viewer" where
  "onDocumentLoadSuccess nextNumPages s = s\<lparr>numPages := Some nextNumPages\<rparr>"

definition handleMouseDown :: "pointer \<Rightarrow> nat \<Rightarrow> viewer \<Rightarrow> error + viewer" where
  "handleMouseDown e pageNumber s =
     (let x0 = js_div (js_sub (clientX e) (rect_left e)) (scale s);
          y0 = js_div (js_sub (clientY e) (rect_top e)) (scale s)
      in Inr (s\<lparr>dragStart := Some \<lparr>x = x0, y = y0, page = pageNumber\<rparr>,
                dragEnd := None,
                dragPage := Some pageNumber,
                isDragging := True\<rparr>))"

definition handleMouseMove :: "pointer \<Rightarrow> viewer \<Rightarrow> error + viewer" where
  "handleMouseMove e s =
     (if \<not> isDragging s \<or> dragStart s = None \<or> dragPage s = None then Inr s
      else
        (let x0 = js_div (js_sub (clientX e) (rect_left e)) (scale s);
             y0 = js_div (js_sub (clientY e) (rect_top e)) (scale s)
         in Inr (s\<lparr>dragEnd := Some \<lparr>x = x0, y = y0, page = the (dragPage s)\<rparr>\<rparr>)))"

text \<open>\<^verbatim>\<open>Date.now()\<close> is an argument: the clock's reading at the call.\<close>

definition handleMouseUp :: "int \<Rightarrow> viewer \<Rightarrow> viewer" where
  "handleMouseUp now s =
     (case (isDragging s, dragStart s, dragEnd s) of
        (True, Some p1, Some p2) \<Rightarrow>
          (let dx = js_sub (x p2) (x p1);
               dy = js_sub (y p2) (y p1);
               pd = Math_sqrt (js_add (js_sq dx) (js_sq dy));
               newMeasurement = \<lparr>id' = now, points = (p1, p2), pixelDistance = pd\<rparr>;
               updatedMeasurements = measurements s @ [newMeasurement]
           in s\<lparr>measurements := updatedMeasurements,
                history := history s @ [measurements s],
                redoStack := [],
                dragStart := None,
                dragEnd := None,
                dragPage := None,
                isDragging := False\<rparr>)
      | _ \<Rightarrow> s\<lparr>isDragging := False\<rparr>)"

definition handleUndo :: "viewer \<Rightarrow> viewer" where
  "handleUndo s =
     (if length (history s) = 0 then s
      else
        (let prev = history s ! (length (history s) - 1)
         in s\<lparr>redoStack := measurements s # redoStack s,
              measurements := prev,
              history := take (length (history s) - 1) (history s)\<rparr>))"

definition handleRedo :: "viewer \<Rightarrow> viewer" where
  "handleRedo s =
     (if length (redoStack s) = 0 then s
      else
        (let next = redoStack s ! 0
         in s\<lparr>measurements := next,
              history := history s @ [measurements s],
              redoStack := drop 1 (redoStack s)\<rparr>))"



section \<open>Events\<close>

text \<open>
  What can happen to the component: its own handlers, and the three setters it hands to
  its children (\<^verbatim>\<open>setScale\<close> to the control menu, \<^verbatim>\<open>setScaleFactor\<close> to the
  calibration selector, \<^verbatim>\<open>setHoveredId\<close> to the overlay), which may set any value of
  the field's type.
\<close>

datatype event =
    FileChange "pdffile option"
  | DocumentLoadSuccess nat
  | MouseDown pointer nat
  | MouseMove pointer
  | MouseUp int
  | Undo
  | Redo
  | SetScale jsnum
  | SetScaleFactor "jsnum option"
  | SetHoveredId "int option"

text \<open>A handler that threw would leave the state as it was.\<close>

fun completed :: "viewer \<Rightarrow> error + viewer \<Rightarrow> viewer" where
  "completed s (Inr s') = s'"
| "completed s (Inl err) = s"

fun step :: "event \<Rightarrow> viewer \<Rightarrow> viewer" where
  "step (FileChange nextFile) s = onFileChange nextFile s"
| "step (DocumentLoadSuccess n) s = onDocumentLoadSuccess n s"
| "step (MouseDown e pageNumber) s = completed s (handleMouseDown e pageNumber s)"
| "step (MouseMove e) s = completed s (handleMouseMove e s)"
| "step (MouseUp now) s = handleMouseUp now s"
| "step Undo s = handleUndo s"
| "step Redo s = handleRedo s"
| "step (SetScale v) s = s\<lparr>scale := v\<rparr>"
| "step (SetScaleFactor v) s = s\<lparr>scaleFactor := v\<rparr>"
| "step (SetHoveredId v) s = s\<lparr>hoveredId := v\<rparr>"

fun run :: "viewer \<Rightarrow> event list \<Rightarrow> viewer" where
  "run s [] = s"
| "run s (e # es) = run (step e s) es"

section \<open>Properties of states and strings\<close>

definition same_page :: "measurement \<Rightarrow> bool" where
  "same_page m = (page (fst (points m)) = page (snd (points m)))"

definition on_page :: "nat \<Rightarrow> measurement \<Rightarrow> bool" where
  "on_page pg m = (page (fst (points m)) = pg \<and> page (snd (points m)) = pg)"

text \<open>The drag's points, when present, lie on the drag's page.\<close>

definition drag_on_page :: "viewer \<Rightarrow> bool" where
  "drag_on_page s =
     ((case dragStart s of None \<Rightarrow> True | Some p \<Rightarrow> dragPage s = Some (page p)) \<and>
      (case dragEnd s of None \<Rightarrow> True | Some p \<Rightarrow> dragPage s = Some (page p)))"

definition pages_inv :: "viewer \<Rightarrow> bool" where
  "pages_inv s =
     (list_all same_page (measurements s) \<and>
      list_all (list_all same_page) (history s) \<and>
      list_all (list_all same_page) (redoStack s) \<and>
      drag_on_page s)"


text \<open>A drag is under way on page \<open>pg\<close>.\<close>

definition dragging_on :: "nat \<Rightarrow> viewer \<Rightarrow> bool" where
  "dragging_on pg s =
     (isDragging s \<and> dragPage s = Some pg \<and>
      (case dragStart s of None \<Rightarrow> False | Some p \<Rightarrow> page p = pg) \<and>
      (case dragEnd s of None \<Rightarrow> True | Some p \<Rightarrow> page p = pg))"

fun press_or_release :: "event \<Rightarrow> bool" where
  "press_or_release (MouseDown e pageNumber) = True"
| "press_or_release (MouseUp now) = True"
| "press_or_release _ = False"

fun is_SetScaleFactor :: "event \<Rightarrow> bool" where
  "is_SetScaleFactor (SetScaleFactor v) = True"
| "is_SetScaleFactor _ = False"

fun is_FileChange :: "event \<Rightarrow> bool" where
  "is_FileChange (FileChange f) = True"
| "is_FileChange _ = False"



section \<open>Example gestures\<close>

text \<open>
  At the initial zoom of 1.25, on a page whose box starts at (100, 200): a press at the
  box's corner and a move to (103.75, 205) drag from (0, 0) to (3, 4); a press at
  (110, 210) and a move to (125, 230) drag from (8, 8) to (20, 24); a press at the
  corner and a move to (137.5, 250) drag from (0, 0) to (30, 40), and a move to
  (101.25, 201.25) instead drags from (0, 0) to (1, 1).
\<close>

definition at_pointer :: "real \<Rightarrow> real \<Rightarrow> pointer" where
  "at_pointer cx cy =
     \<lparr>clientX = Num cx, clientY = Num cy, rect_left = Num 100, rect_top = Num 200\<rparr>"

definition gesture_A :: "int \<Rightarrow> event list" where
  "gesture_A now =
     [MouseDown (at_pointer 100 200) 1, MouseMove (at_pointer 103.75 205), MouseUp now]"

definition gesture_B :: "int \<Rightarrow> event list" where
  "gesture_B now =
     [MouseDown (at_pointer 110 210) 2, MouseMove (at_pointer 125 230), MouseUp now]"

definition measurement_A :: "int \<Rightarrow> measurement" where
  "measurement_A now =
     \<lparr>id' = now,
      points = (\<lparr>x = Num 0, y = Num 0, page = 1\<rparr>, \<lparr>x = Num 3, y = Num 4, page = 1\<rparr>),
      pixelDistance = Num 5\<rparr>"

definition measurement_B :: "int \<Rightarrow> measurement" where
  "measurement_B now =
     \<lparr>id' = now,
      points = (\<lparr>x = Num 8, y = Num 8, page = 2\<rparr>, \<lparr>x = Num 20, y = Num 24, page = 2\<rparr>),
      pixelDistance = Num 20\<rparr>"

definition gesture_C :: "int \<Rightarrow> event list" where
  "gesture_C now =
     [MouseDown (at_pointer 100 200) 1, MouseMove (at_pointer 137.5 250), MouseUp now]"

definition measurement_C :: "int \<Rightarrow> measurement" where
  "measurement_C now =
     \<lparr>id' = now,
      points = (\<lparr>x = Num 0, y = Num 0, page = 1\<rparr>, \<lparr>x = Num 30, y = Num 40, page = 1\<rparr>),
      pixelDistance = Num 50\<rparr>"

definition gesture_D :: "int \<Rightarrow> event list" where
  "gesture_D now =
     [MouseDown (at_pointer 100 200) 1, MouseMove (at_pointer 101.25 201.25), MouseUp now]"

text \<open>The drag of the first gesture, before the release.\<close>

definition dragging_A :: viewer where
  "dragging_A = run init (butlast (gesture_A 0))"

text \<open>Two commits, both undone, and a new drag begun after that.\<close>

definition two_undone :: viewer where
  "two_undone = run init (gesture_A 1000 @ gesture_B 2000 @ [Undo, Undo])"

text \<open>Two commits.\<close>

definition two_committed :: viewer where
  "two_committed = run init (gesture_A 1000 @ gesture_B 2000)"

definition dragging_after_undo :: viewer where
  "dragging_after_undo = run two_undone (butlast (gesture_B 3000))"


section \<open>Rounding\<close>

lemma round_even_int: "round_even (of_int n) = n"
  by (simp add: round_even_def)

lemma round_even_near: "\<bar>q - of_int n\<bar> < 1 / 2 \<Longrightarrow> round_even q = n"
proof -
  assume a: "\<bar>q - of_int n\<bar> < 1 / 2"
  show ?thesis
  proof (cases "of_int n \<le> q")
    case True
    with a have "\<lfloor>q\<rfloor> = n" by (intro floor_unique) auto
    with a True show ?thesis by (simp add: round_even_def Let_def)
  next
    case False
    with a have "\<lfloor>q\<rfloor> = n - 1" by (intro floor_unique) auto
    with a False show ?thesis by (auto simp: round_even_def Let_def)
  qed
qed

lemma round_even_bounds: "\<lfloor>q\<rfloor> \<le> round_even q \<and> round_even q \<le> \<lceil>q\<rceil>"
proof -
  have "\<lfloor>q\<rfloor> + 1 \<le> \<lceil>q\<rceil>" if "of_int \<lfloor>q\<rfloor> < q"
    using that by (simp add: ceiling_altdef)
  moreover have "\<lfloor>q\<rfloor> \<le> \<lceil>q\<rceil>" by (rule floor_le_ceiling)
  ultimately show ?thesis
    by (auto simp: round_even_def Let_def)
qed

lemma round_even_le: "q \<le> of_int m \<Longrightarrow> round_even q \<le> m"
  using round_even_bounds [of q] by (simp add: ceiling_le_iff order_trans [of _ "\<lceil>q\<rceil>"])

lemma round_even_ge: "of_int m \<le> q \<Longrightarrow> m \<le> round_even q"
  using round_even_bounds [of q] by (simp add: le_floor_iff order_trans [of _ "\<lfloor>q\<rfloor>"])

lemma powr_powi: "(2::real) powr real_of_int k = 2 powi k"
  by (simp add: powr_real_of_int')

lemma floor_log2_eq: "2 powi k \<le> v \<Longrightarrow> v < 2 powi (k + 1) \<Longrightarrow> \<lfloor>log 2 v\<rfloor> = k"
proof -
  assume a: "2 powi k \<le> v" and b: "v < 2 powi (k + 1)"
  have "0 < (2::real) powi k" by simp
  with a have pos: "0 < v" by linarith
  have "(2::real) powr (real_of_int k + 1) = 2 powi (k + 1)"
    using powr_powi [of "k + 1"] by simp
  then show ?thesis
    using a b pos by (simp add: floor_log_eq_powr_iff powr_powi)
qed

lemma floor_log2_less: "0 < v \<Longrightarrow> v < 2 powi k \<Longrightarrow> \<lfloor>log 2 v\<rfloor> < k"
proof -
  assume pos: "0 < v" and b: "v < 2 powi k"
  then have "v < 2 powr real_of_int k" by (simp add: powr_powi)
  then have "log 2 v < log 2 (2 powr real_of_int k)"
    using pos by (simp del: log_powr_cancel)
  then have "log 2 v < real_of_int k" by simp
  then show ?thesis by (simp add: floor_less_iff)
qed

lemma floor_log2_ge: "2 powi k \<le> v \<Longrightarrow> k \<le> \<lfloor>log 2 v\<rfloor>"
proof -
  assume a: "2 powi k \<le> v"
  have "0 < (2::real) powi k" by simp
  with a have pos: "0 < v" by linarith
  from a have "2 powr real_of_int k \<le> v" by (simp add: powr_powi)
  then have "log 2 (2 powr real_of_int k) \<le> log 2 v"
    using pos by (simp del: log_powr_cancel)
  then have "real_of_int k \<le> log 2 v" by simp
  then show ?thesis by (simp add: le_floor_iff)
qed

lemma powi_less_cancel: "(2::real) powi a < 2 powi b \<Longrightarrow> a < b"
proof (rule ccontr)
  assume "(2::real) powi a < 2 powi b" and "\<not> a < b"
  then show False
    using power_int_increasing [of b a "2::real"] by simp
qed

lemma div_powi_less: "w < 2 powi a \<Longrightarrow> w / 2 powi u < (2::real) powi (a - u)"
  by (simp add: power_int_diff divide_strict_right_mono)

lemma div_powi_ge: "2 powi a \<le> w \<Longrightarrow> (2::real) powi (a - u) \<le> w / 2 powi u"
  by (simp add: power_int_diff divide_right_mono)

lemma ulp_exponent_ge: "- 1074 \<le> ulp_exponent v"
  by (simp add: ulp_exponent_def)

lemma ulp_exponent_normal:
  "2 powi k \<le> \<bar>v\<bar> \<Longrightarrow> \<bar>v\<bar> < 2 powi (k + 1) \<Longrightarrow> - 1022 \<le> k \<Longrightarrow> ulp_exponent v = k - 52"
  by (simp add: ulp_exponent_def floor_log2_eq)

text \<open>A multiple of a power of two with a significand of at most 53 bits is not changed.\<close>

lemma js_round_exact:
  assumes v: "v = of_int n * 2 powi e" and n: "\<bar>n\<bar> < 2 ^ 53" and nz: "n \<noteq> 0"
    and lo: "- 1074 \<le> e" and hi: "e \<le> 971"
  shows "js_round v = Num v"
proof -
  have vnz: "v \<noteq> 0" using v nz by simp
  have absv: "\<bar>v\<bar> = of_int \<bar>n\<bar> * 2 powi e" using v by (simp add: abs_mult)
  have "of_int \<bar>n\<bar> < (2::real) ^ 53" using n by (metis of_int_less_numeral_power_cancel_iff)
  then have "\<bar>v\<bar> < 2 ^ 53 * 2 powi e" using absv by simp
  also have "\<dots> = 2 powi (53 + e)" by (simp add: power_int_add)
  finally have up: "\<bar>v\<bar> < 2 powi (53 + e)" .
  have "\<lfloor>log 2 \<bar>v\<bar>\<rfloor> < 53 + e" using vnz up by (intro floor_log2_less) auto
  then have ue: "ulp_exponent v \<le> e" using lo by (simp add: ulp_exponent_def)
  define u where "u = ulp_exponent v"
  define j where "j = nat (e - u)"
  have e_eq: "e = u + int j" using ue by (simp add: j_def u_def)
  have v': "v = of_int n * 2 powi (u + int j)" using v e_eq by simp
  have "v / 2 powi u = of_int n * 2 ^ j"
    by (simp add: v' power_int_add)
  also have "\<dots> = of_int (n * 2 ^ j)" by simp
  finally have q: "v / 2 powi u = of_int (n * 2 ^ j)" .
  have "of_int (round_even (v / 2 powi u)) * 2 powi u = v"
    unfolding q round_even_int by (simp add: v' power_int_add)
  then have r: "of_int (round_even (v / 2 powi ulp_exponent v)) * 2 powi ulp_exponent v = v"
    by (simp add: u_def)
  have "2 powi (53 + e) \<le> (2::real) powi 1024"
    using hi by (intro power_int_increasing) auto
  with up have "\<bar>v\<bar> < 2 ^ 1024" by simp
  with vnz r show ?thesis
    by (simp add: js_round_def Let_def)
qed

text \<open>The rounding of a number in the normal range, from its binary exponent.\<close>

lemma js_round_near:
  assumes "2 powi k \<le> \<bar>v\<bar>" and "\<bar>v\<bar> < 2 powi (k + 1)" and "- 1022 \<le> k"
    and "\<bar>v / 2 powi (k - 52) - of_int n\<bar> < 1 / 2"
    and "n \<noteq> 0" and "\<bar>real_of_int n * 2 powi (k - 52)\<bar> < 2 ^ 1024"
  shows "js_round v = Num (of_int n * 2 powi (k - 52))"
proof -
  have "0 < (2::real) powi k" by simp
  with assms(1) have "0 < \<bar>v\<bar>" by linarith
  then have "v \<noteq> 0" by simp
  moreover have "ulp_exponent v = k - 52"
    using assms(1-3) by (rule ulp_exponent_normal)
  moreover have "round_even (v / 2 powi (k - 52)) = n"
    using assms(4) by (rule round_even_near)
  ultimately show ?thesis
    using assms(5,6) by (simp add: js_round_def Let_def)
qed

text \<open>Rounding gives a double: rounding it again changes nothing.\<close>

lemma js_round_idem:
  assumes "js_round v = Num r"
  shows "js_round r = Num r"
proof (cases "v = 0 \<or> r = 0")
  case True
  with assms show ?thesis by (auto simp: js_round_def)
next
  case nonzero: False
  then have False: "v \<noteq> 0" and rnz: "r \<noteq> 0" by simp_all
  define u where "u = ulp_exponent v"
  define q where "q = v / 2 powi u"
  define n where "n = round_even q"
  from assms False rnz have r: "r = of_int n * 2 powi u" and small: "\<bar>r\<bar> < 2 ^ 1024"
    by (auto simp: js_round_def Let_def u_def q_def n_def split: if_splits)
  from rnz r have nnz: "n \<noteq> 0" by auto
  have absr: "\<bar>r\<bar> = of_int \<bar>n\<bar> * 2 powi u" by (simp add: r abs_mult)
  have absq: "\<bar>q\<bar> = \<bar>v\<bar> / 2 powi u" by (simp add: q_def abs_mult)
  have upper: "\<bar>n\<bar> \<le> 2 ^ 53 \<and> (\<bar>n\<bar> = 2 ^ 53 \<longrightarrow> u + 1 \<le> 971) \<and> (\<bar>n\<bar> < 2 ^ 53 \<longrightarrow> u \<le> 971)"
  proof (cases "- 1022 \<le> \<lfloor>log 2 \<bar>v\<bar>\<rfloor>")
    case normal: True
    define k where "k = \<lfloor>log 2 \<bar>v\<bar>\<rfloor>"
    have u_eq: "u = k - 52" using normal by (simp add: u_def ulp_exponent_def k_def)
    have "0 < \<bar>v\<bar>" using False by simp
    then have "2 powr real_of_int k \<le> \<bar>v\<bar> \<and> \<bar>v\<bar> < 2 powr (real_of_int k + 1)"
      using floor_log_eq_powr_iff [of "\<bar>v\<bar>" 2 k] by (simp add: k_def)
    then have lo: "2 powi k \<le> \<bar>v\<bar>" and hi: "\<bar>v\<bar> < 2 powi (k + 1)"
      using powr_powi [of k] powr_powi [of "k + 1"] by simp_all
    have "2 powi (k - u) \<le> \<bar>q\<bar>" unfolding absq using lo by (rule div_powi_ge)
    then have qlo: "2 ^ 52 \<le> \<bar>q\<bar>" by (simp add: u_eq)
    have "\<bar>q\<bar> < 2 powi (k + 1 - u)" unfolding absq using hi by (rule div_powi_less)
    then have qhi: "\<bar>q\<bar> < 2 ^ 53" by (simp add: u_eq)
    have nhi: "\<bar>n\<bar> \<le> 2 ^ 53"
      using round_even_le [of q "2 ^ 53"] round_even_ge [of "- (2 ^ 53)" q] qhi
      by (simp add: n_def abs_le_iff abs_less_iff)
    have nlo: "2 ^ 52 \<le> \<bar>n\<bar>"
    proof (cases "0 \<le> q")
      case True
      with qlo have "of_int (2 ^ 52) \<le> q" by simp
      then have "2 ^ 52 \<le> n" unfolding n_def by (rule round_even_ge)
      then show ?thesis by simp
    next
      case False
      with qlo have "q \<le> of_int (- (2 ^ 52))" by simp
      then have "n \<le> - (2 ^ 52)" unfolding n_def by (rule round_even_le)
      then show ?thesis by simp
    qed
    have "2 ^ 52 * 2 powi u \<le> of_int \<bar>n\<bar> * (2::real) powi u"
      using nlo by (intro mult_right_mono) (simp_all add: of_int_le_numeral_power_cancel_iff [symmetric] del: of_int_le_numeral_power_cancel_iff)
    then have "2 powi (52 + u) \<le> \<bar>r\<bar>" by (simp add: absr power_int_add)
    with small have "(2::real) powi (52 + u) < 2 powi 1024" by simp
    then have bound: "52 + u < 1024" by (rule powi_less_cancel)
    have "u + 1 \<le> 971" if "\<bar>n\<bar> = 2 ^ 53"
    proof -
      from that have "\<bar>r\<bar> = 2 ^ 53 * 2 powi u" by (simp add: absr)
      then have "\<bar>r\<bar> = 2 powi (53 + u)" by (simp add: power_int_add)
      with small have "(2::real) powi (53 + u) < 2 powi 1024" by simp
      then have "53 + u < 1024" by (rule powi_less_cancel)
      then show ?thesis by simp
    qed
    with nhi bound show ?thesis by auto
  next
    case subnormal: False
    then have u_eq: "u = - 1074" by (simp add: u_def ulp_exponent_def)
    have "\<not> 2 powi (- 1022) \<le> \<bar>v\<bar>"
      using floor_log2_ge [of "- 1022" "\<bar>v\<bar>"] subnormal by auto
    then have "\<bar>v\<bar> < 2 powi (- 1022)" by simp
    then have "\<bar>q\<bar> < 2 powi (- 1022 - u)" unfolding absq by (rule div_powi_less)
    then have qhi: "\<bar>q\<bar> < 2 ^ 52" by (simp add: u_eq)
    have "\<bar>n\<bar> \<le> 2 ^ 52"
      using round_even_le [of q "2 ^ 52"] round_even_ge [of "- (2 ^ 52)" q] qhi
      by (simp add: n_def abs_le_iff abs_less_iff)
    then show ?thesis by (simp add: u_eq)
  qed
  show ?thesis
  proof (cases "\<bar>n\<bar> = 2 ^ 53")
    case True
    define n' :: int where "n' = (if 0 \<le> n then 2 ^ 52 else - (2 ^ 52))"
    have "n = 2 * n'" using True by (auto simp: n'_def abs_if split: if_splits)
    then have "r = of_int n' * 2 powi (u + 1)"
      by (simp add: r power_int_add)
    moreover have "\<bar>n'\<bar> < 2 ^ 53" "n' \<noteq> 0" by (simp_all add: n'_def)
    moreover have "- 1074 \<le> u + 1" using ulp_exponent_ge [of v] by (simp add: u_def)
    moreover have "u + 1 \<le> 971" using upper True by simp
    ultimately show ?thesis by (intro js_round_exact)
  next
    case False
    with upper have "\<bar>n\<bar> < 2 ^ 53" "u \<le> 971" by auto
    moreover have "- 1074 \<le> u" using ulp_exponent_ge [of v] by (simp add: u_def)
    ultimately show ?thesis using r nnz by (intro js_round_exact)
  qed
qed

lemma is_double_js_round: "is_double (js_round v)"
  by (cases "js_round v") (simp_all add: is_double_def js_round_idem)

text \<open>A real of magnitude at least \<open>2 ^ 1024\<close> rounds to an infinity.\<close>

lemma round_even_abs_ge:
  assumes "of_int m \<le> \<bar>q\<bar>"
  shows "m \<le> \<bar>round_even q\<bar>"
proof (cases "0 \<le> q")
  case True
  with assms have "of_int m \<le> q" by simp
  then have "m \<le> round_even q" by (rule round_even_ge)
  then show ?thesis by simp
next
  case False
  with assms have "q \<le> of_int (- m)" by simp
  then have "round_even q \<le> - m" by (rule round_even_le)
  then show ?thesis by simp
qed

lemma js_round_overflow:
  assumes "2 ^ 1024 \<le> \<bar>v\<bar>"
  shows "js_round v = (if v < 0 then NegInf else PosInf)"
proof -
  define k where "k = \<lfloor>log 2 \<bar>v\<bar>\<rfloor>"
  define u where "u = ulp_exponent v"
  from assms have big: "2 powi 1024 \<le> \<bar>v\<bar>" by simp
  then have k: "1024 \<le> k" unfolding k_def by (rule floor_log2_ge)
  then have u_eq: "u = k - 52" by (simp add: u_def ulp_exponent_def k_def)
  have "0 < (2::real) powi 1024" by simp
  with big have pos: "0 < \<bar>v\<bar>" by linarith
  then have vnz: "v \<noteq> 0" by simp
  from pos have "2 powr real_of_int k \<le> \<bar>v\<bar>"
    using floor_log_eq_powr_iff [of "\<bar>v\<bar>" 2 k] by (simp add: k_def)
  then have lo: "2 powi k \<le> \<bar>v\<bar>" by (simp add: powr_powi)
  have "2 powi (k - u) \<le> \<bar>v\<bar> / 2 powi u" using lo by (rule div_powi_ge)
  then have "of_int (2 ^ 52) \<le> \<bar>v / 2 powi u\<bar>" by (simp add: u_eq abs_mult)
  then have n: "2 ^ 52 \<le> \<bar>round_even (v / 2 powi u)\<bar>" by (rule round_even_abs_ge)
  have "(2::real) powi 1024 \<le> 2 powi k"
    using k by (intro power_int_increasing) simp_all
  also have "\<dots> = 2 ^ 52 * 2 powi u" by (simp add: u_eq power_int_diff)
  also have "\<dots> \<le> of_int \<bar>round_even (v / 2 powi u)\<bar> * 2 powi u"
    using n by (intro mult_right_mono) (simp_all add: of_int_le_numeral_power_cancel_iff [symmetric] del: of_int_le_numeral_power_cancel_iff)
  also have "\<dots> = \<bar>of_int (round_even (v / 2 powi u)) * 2 powi u\<bar>"
    by (simp add: abs_mult)
  finally have "2 ^ 1024 \<le> \<bar>real_of_int (round_even (v / 2 powi ulp_exponent v)) * 2 powi ulp_exponent v\<bar>"
    by (simp add: u_def)
  with vnz show ?thesis
    by (simp add: js_round_def Let_def)
qed

lemma js_round_not_NaN: "js_round v \<noteq> NaN"
  by (simp add: js_round_def Let_def)

lemma js_round_nonneg: "0 \<le> v \<Longrightarrow> js_round v \<noteq> NegInf"
  by (simp add: js_round_def Let_def)

text \<open>Integers and dyadic fractions of at most 53 bits are doubles.\<close>

lemma js_round_int:
  "\<bar>n\<bar> < 2 ^ 53 \<Longrightarrow> js_round (of_int n) = Num (of_int n)"
proof (cases "n = 0")
  case True
  then show ?thesis by (simp add: js_round_def)
next
  case False
  assume "\<bar>n\<bar> < 2 ^ 53"
  with False show ?thesis
    by (intro js_round_exact [of _ n 0]) simp_all
qed

lemma js_round_dyadic:
  assumes "\<bar>n\<bar> < 2 ^ 53" and "j \<le> 1074"
  shows "js_round (of_int n / 2 ^ j) = Num (of_int n / 2 ^ j)"
proof (cases "n = 0")
  case True
  then show ?thesis by (simp add: js_round_def)
next
  case False
  have "real_of_int n / 2 ^ j = of_int n * 2 powi (- int j)"
    by (simp add: power_int_minus field_simps)
  with assms False show ?thesis
    by (intro js_round_exact [of _ n "- int j"]) simp_all
qed

lemma js_round_numeral [simp]:
  "(numeral w :: int) < 2 ^ 53 \<Longrightarrow> js_round (numeral w) = Num (numeral w)"
  using js_round_int [of "numeral w"] by simp

lemma js_round_neg_numeral [simp]:
  "(numeral w :: int) < 2 ^ 53 \<Longrightarrow> js_round (- numeral w) = Num (- numeral w)"
  using js_round_int [of "- numeral w"] by simp

lemma js_round_0 [simp]: "js_round 0 = Num 0"
  by (simp add: js_round_def)

lemma js_round_1 [simp]: "js_round 1 = Num 1"
  using js_round_int [of 1] by simp

section \<open>Evaluation of the examples\<close>

lemmas handler_defs =
  handleMouseDown_def handleMouseMove_def handleMouseUp_def handleUndo_def handleRedo_def
  onFileChange_def onDocumentLoadSuccess_def

lemma sqrt_values: "sqrt 25 = 5" "sqrt 400 = 20" "sqrt 2500 = 50"
  by (simp_all add:)

lemma js_round_quarters:
  "js_round (5 / 4) = Num (5 / 4)" "js_round (15 / 4) = Num (15 / 4)"
  "js_round (75 / 2) = Num (75 / 2)" "js_round (1 / 8) = Num (1 / 8)"
  "js_round (5 / 8) = Num (5 / 8)"
  using js_round_dyadic [of 5 2] js_round_dyadic [of 15 2] js_round_dyadic [of 75 1]
    js_round_dyadic [of 1 3] js_round_dyadic [of 5 3]
  by simp_all

lemmas arith_defs =
  js_sub_def js_add_def js_mul_def js_div_def js_sq_def js_signed_zero_def js_signed_inf_def
  js_round_quarters sqrt_values

lemmas example_defs =
  gesture_A_def gesture_B_def gesture_C_def gesture_D_def at_pointer_def init_def
  drawingCalibrations_def defaultCalibrationValue_def measurement_A_def measurement_B_def
  measurement_C_def arith_defs

lemma dragging_A_eq:
  "dragging_A =
     init\<lparr>isDragging := True,
          dragStart := Some \<lparr>x = Num 0, y = Num 0, page = 1\<rparr>,
          dragEnd := Some \<lparr>x = Num 3, y = Num 4, page = 1\<rparr>,
          dragPage := Some 1\<rparr>"
  by (simp add: dragging_A_def handler_defs example_defs)

lemma two_undone_eq:
  "two_undone =
     init\<lparr>redoStack := [[measurement_A 1000], [measurement_A 1000, measurement_B 2000]]\<rparr>"
  by (simp add: two_undone_def handler_defs example_defs)

lemma two_committed_eq:
  "two_committed =
     init\<lparr>measurements := [measurement_A 1000, measurement_B 2000],
          history := [[], [measurement_A 1000]]\<rparr>"
  by (simp add: two_committed_def handler_defs example_defs)

lemma dragging_after_undo_eq:
  "dragging_after_undo =
     two_undone\<lparr>isDragging := True,
          dragStart := Some \<lparr>x = Num 8, y = Num 8, page = 2\<rparr>,
          dragEnd := Some \<lparr>x = Num 20, y = Num 24, page = 2\<rparr>,
          dragPage := Some 2\<rparr>"
  by (simp add: dragging_after_undo_def two_undone_eq handler_defs example_defs)

section \<open>Commit, undo and redo\<close>

lemma last_snapshot:
  "h \<noteq> [] \<Longrightarrow> take (length h - Suc 0) h @ [h ! (length h - Suc 0)] = h"
  by (cases h rule: rev_cases) (simp_all add: nth_append)

lemma redo_undo: "history s \<noteq> [] \<Longrightarrow> handleRedo (handleUndo s) = s"
  by (simp add: handleRedo_def handleUndo_def last_snapshot)

lemma undo_redo: "redoStack s \<noteq> [] \<Longrightarrow> handleUndo (handleRedo s) = s"
  by (cases "redoStack s") (simp_all add: handleRedo_def handleUndo_def)

lemma commit:
  "isDragging s \<Longrightarrow> dragStart s = Some p1 \<Longrightarrow> dragEnd s = Some p2 \<Longrightarrow>
   handleMouseUp now s =
     s\<lparr>measurements := measurements s @
         [\<lparr>id' = now, points = (p1, p2),
           pixelDistance =
             Math_sqrt (js_add (js_sq (js_sub (x p2) (x p1))) (js_sq (js_sub (y p2) (y p1))))\<rparr>],
       history := history s @ [measurements s],
       redoStack := [],
       dragStart := None, dragEnd := None, dragPage := None, isDragging := False\<rparr>"
  by (simp add: handleMouseUp_def)

lemma no_commit:
  "\<not> isDragging s \<or> dragStart s = None \<or> dragEnd s = None \<Longrightarrow>
   handleMouseUp now s = s\<lparr>isDragging := False\<rparr>"
  by (auto simp: handleMouseUp_def split: option.splits bool.splits)

lemma undo_commit:
  assumes "isDragging s" and "dragStart s = Some p1" and "dragEnd s = Some p2"
  shows "measurements (handleUndo (handleMouseUp now s)) = measurements s"
    and "history (handleUndo (handleMouseUp now s)) = history s"
  using assms by (simp_all add: commit handleUndo_def)

text \<open>
  C1. Undo right after a drag commit puts back the sequence of measurements (and the undo
  stack) of before the commit, and redo right after that undo gives the state after the
  commit, in every field. More generally redo undoes an undo that had a snapshot to pop,
  and undo undoes a redo that had one.
\<close>

theorem undo_redo_inverse:
  assumes "isDragging s" and "dragStart s = Some p1" and "dragEnd s = Some p2"
  shows "measurements (handleUndo (handleMouseUp now s)) = measurements s \<and>
         history (handleUndo (handleMouseUp now s)) = history s \<and>
         handleRedo (handleUndo (handleMouseUp now s)) = handleMouseUp now s \<and>
         (history t \<noteq> [] \<longrightarrow> handleRedo (handleUndo t) = t) \<and>
         (redoStack u \<noteq> [] \<longrightarrow> handleUndo (handleRedo u) = u)"
proof -
  have "history (handleMouseUp now s) \<noteq> []"
    using assms by (simp add: commit)
  then have "handleRedo (handleUndo (handleMouseUp now s)) = handleMouseUp now s"
    by (rule redo_undo)
  then show ?thesis
    using assms by (simp add: undo_commit redo_undo undo_redo)
qed

theorem undo_redo_inverse_witness:
  "isDragging dragging_A \<and> dragStart dragging_A \<noteq> None \<and> dragEnd dragging_A \<noteq> None \<and>
   measurements dragging_A = [] \<and>
   measurements (handleMouseUp 7 dragging_A) = [measurement_A 7] \<and>
   measurements (handleUndo (handleMouseUp 7 dragging_A)) = [] \<and>
   handleRedo (handleUndo (handleMouseUp 7 dragging_A)) = handleMouseUp 7 dragging_A \<and>
   history (handleMouseUp 7 dragging_A) \<noteq> [] \<and>
   redoStack two_undone \<noteq> [] \<and>
   handleUndo (handleRedo two_undone) = two_undone"
  using undo_redo_inverse [of dragging_A "\<lparr>x = Num 0, y = Num 0, page = 1\<rparr>"
      "\<lparr>x = Num 3, y = Num 4, page = 1\<rparr>" 7 "handleMouseUp 7 dragging_A" two_undone]
  by (simp add: dragging_A_eq two_undone_eq handler_defs example_defs)

text \<open>
  C2. A drag commit appends the sequence of measurements of before the commit to the undo
  stack and leaves the redo stack empty, whatever the redo stack held before.
\<close>

theorem commit_pushes_snapshot:
  assumes "isDragging s" and "dragStart s = Some p1" and "dragEnd s = Some p2"
  shows "history (handleMouseUp now s) = history s @ [measurements s] \<and>
         redoStack (handleMouseUp now s) = []"
  using assms by (simp add: commit)

theorem commit_pushes_snapshot_witness:
  "isDragging dragging_after_undo \<and> dragStart dragging_after_undo \<noteq> None \<and>
   dragEnd dragging_after_undo \<noteq> None \<and>
   length (redoStack dragging_after_undo) = 2 \<and>
   history (handleMouseUp 3000 dragging_after_undo) = [[]] \<and>
   redoStack (handleMouseUp 3000 dragging_after_undo) = []"
  using commit_pushes_snapshot [of dragging_after_undo "\<lparr>x = Num 8, y = Num 8, page = 2\<rparr>"
      "\<lparr>x = Num 20, y = Num 24, page = 2\<rparr>" 3000]
  by (simp add: dragging_after_undo_eq two_undone_eq init_def)

lemma is_double_Math_sqrt: "is_double (Math_sqrt v)"
  by (cases v) (simp_all add: is_double_js_round, simp_all add: is_double_def)

lemma js_sub_exact: "is_double (Num (c - a)) \<Longrightarrow> js_sub (Num c) (Num a) = Num (c - a)"
  by (cases "a = 0") (simp_all add: js_sub_def js_add_def is_double_def)

lemma js_sq_exact: "is_double (Num (t ^ 2)) \<Longrightarrow> js_sq (Num t) = Num (t ^ 2)"
  by (simp add: js_sq_def is_double_def)

lemma js_add_exact: "is_double (Num (a + b)) \<Longrightarrow> js_add (Num a) (Num b) = Num (a + b)"
  by (simp add: js_add_def is_double_def)

lemma Math_sqrt_exact:
  "0 \<le> a \<Longrightarrow> is_double (Num (sqrt a)) \<Longrightarrow> Math_sqrt (Num a) = Num (sqrt a)"
  by (simp add: is_double_def)

lemma euclid_exact:
  assumes "is_double (Num (c - a))" and "is_double (Num (d - b))"
    and "is_double (Num ((c - a) ^ 2))" and "is_double (Num ((d - b) ^ 2))"
    and "is_double (Num ((c - a) ^ 2 + (d - b) ^ 2))"
    and "is_double (Num (sqrt ((c - a) ^ 2 + (d - b) ^ 2)))"
  shows "Math_sqrt (js_add (js_sq (js_sub (Num c) (Num a))) (js_sq (js_sub (Num d) (Num b)))) =
         Num (sqrt ((c - a) ^ 2 + (d - b) ^ 2))"
proof -
  have "Math_sqrt (js_add (js_sq (js_sub (Num c) (Num a))) (js_sq (js_sub (Num d) (Num b)))) =
        Math_sqrt (Num ((c - a) ^ 2 + (d - b) ^ 2))"
    using assms by (simp add: js_sub_exact js_sq_exact js_add_exact del: Math_sqrt.simps)
  also have "\<dots> = Num (sqrt ((c - a) ^ 2 + (d - b) ^ 2))"
    using assms(6) by (intro Math_sqrt_exact) simp_all
  finally show ?thesis .
qed

lemma js_sq_range: "w \<noteq> NaN \<Longrightarrow> js_sq w \<noteq> NaN \<and> js_sq w \<noteq> NegInf"
  by (simp add: js_sq_def js_round_not_NaN js_round_nonneg)

lemma js_sub_not_NaN: "js_sub (Num d) (Num b) \<noteq> NaN"
  by (simp add: js_sub_def js_add_def js_round_not_NaN)

lemma js_sq_overflow: "2 ^ 512 \<le> \<bar>t\<bar> \<Longrightarrow> js_sq (Num t) = PosInf"
proof -
  assume a: "2 ^ 512 \<le> \<bar>t\<bar>"
  then have "(2 ^ 512) ^ 2 \<le> \<bar>t\<bar> ^ 2"
    by (intro power_mono) simp_all
  then have "2 ^ 1024 \<le> \<bar>t ^ 2\<bar>" by simp
  then have "js_round (t ^ 2) = PosInf" by (simp add: js_round_overflow)
  moreover from a have "t \<noteq> 0" by auto
  ultimately show ?thesis by (simp add: js_sq_def)
qed

lemma euclid_overflow:
  assumes "is_double (Num (c - a))" and "2 ^ 512 \<le> \<bar>c - a\<bar>"
  shows "Math_sqrt (js_add (js_sq (js_sub (Num c) (Num a))) (js_sq (js_sub (Num d) (Num b)))) =
         PosInf"
proof -
  have "js_sq (js_sub (Num c) (Num a)) = PosInf"
    using assms by (simp add: js_sub_exact js_sq_overflow)
  moreover have "js_sq (js_sub (Num d) (Num b)) \<noteq> NaN \<and> js_sq (js_sub (Num d) (Num b)) \<noteq> NegInf"
    by (rule js_sq_range) (rule js_sub_not_NaN)
  ultimately have "js_add (js_sq (js_sub (Num c) (Num a))) (js_sq (js_sub (Num d) (Num b))) = PosInf"
    by (cases "js_sq (js_sub (Num d) (Num b))") (simp_all add: js_add_def)
  then show ?thesis by simp
qed

lemma sqrt_2_bounds:
  "6369051672525773 - 1 / 2 < sqrt 2 * 4503599627370496"
  "sqrt 2 * 4503599627370496 < 6369051672525773 + 1 / 2"
proof -
  have "(12738103345051545 / 9007199254740992) ^ 2 < (2::real)"
    by (simp add: power_divide)
  then have "12738103345051545 / 9007199254740992 < sqrt 2"
    by (rule real_less_rsqrt)
  then show "6369051672525773 - 1 / 2 < sqrt 2 * 4503599627370496"
    by (simp add: field_simps)
  have "(2::real) < (12738103345051547 / 9007199254740992) ^ 2"
    by (simp add: power_divide)
  then have "sqrt 2 < 12738103345051547 / 9007199254740992"
    by (intro real_less_lsqrt) simp_all
  then show "sqrt 2 * 4503599627370496 < 6369051672525773 + 1 / 2"
    by (simp add: field_simps)
qed

lemma js_round_sqrt_2: "js_round (sqrt 2) = Num (6369051672525773 / 4503599627370496)"
proof -
  have "sqrt 2 < 2"
    by (rule real_less_lsqrt) simp_all
  moreover have "\<bar>sqrt 2 * 4503599627370496 - 6369051672525773\<bar> < 1 / 2"
    using sqrt_2_bounds by linarith
  then have "\<bar>sqrt 2 / 2 powi (0 - 52) - of_int 6369051672525773\<bar> < 1 / 2"
    by simp
  ultimately have "js_round (sqrt 2) = Num (of_int 6369051672525773 * 2 powi (0 - 52))"
    by (intro js_round_near) simp_all
  then show ?thesis by simp
qed

text \<open>
  A drag from (0, 0) to (1, 1) stores the double nearest to the square root of two, which
  is not the Euclidean distance of the two points.
\<close>

theorem commit_distance_counterexample:
  "measurements (run init (gesture_D 1000)) =
     [\<lparr>id' = 1000,
       points = (\<lparr>x = Num 0, y = Num 0, page = 1\<rparr>, \<lparr>x = Num 1, y = Num 1, page = 1\<rparr>),
       pixelDistance = Num (6369051672525773 / 4503599627370496)\<rparr>] \<and>
   (6369051672525773 / 4503599627370496 :: real) \<noteq> sqrt ((1 - 0) ^ 2 + (1 - 0) ^ 2)"
proof -
  have "(6369051672525773 / 4503599627370496 :: real) \<noteq> sqrt 2"
  proof
    assume e: "(6369051672525773 / 4503599627370496 :: real) = sqrt 2"
    have "(6369051672525773 / 4503599627370496 :: real) ^ 2 = (sqrt 2) ^ 2"
      by (subst e) (rule refl)
    also have "\<dots> = 2" by simp
    finally show False by (simp add: power_divide)
  qed
  then have ne: "(6369051672525773 / 4503599627370496 :: real) \<noteq> sqrt ((1 - 0) ^ 2 + (1 - 0) ^ 2)"
    by simp
  have m: "measurements (run init (gesture_D 1000)) =
     [\<lparr>id' = 1000,
       points = (\<lparr>x = Num 0, y = Num 0, page = 1\<rparr>, \<lparr>x = Num 1, y = Num 1, page = 1\<rparr>),
       pixelDistance = Num (6369051672525773 / 4503599627370496)\<rparr>]"
    by (simp add: handler_defs example_defs js_round_sqrt_2 Let_def)
  show ?thesis
    by (rule conjI [OF m ne])
qed

text \<open>
  C3 (amended). Ending a drag that has both points appends exactly one measurement after
  the measurements already stored, which stay as they were. Its distance is
  \<^verbatim>\<open>Math.sqrt(dx ** 2 + dy ** 2)\<close> computed in double arithmetic, and so a double or
  a non-finite number; it is the Euclidean distance of the two points when the
  differences, their squares, the sum of the squares and its square root are doubles, so
  that no step rounds; it is Infinity when a coordinate difference is of magnitude
  \<open>2 ^ 512\<close> or more, so that its square overflows.
\<close>

theorem commit_appends_measurement:
  assumes "isDragging s" and "dragStart s = Some p1" and "dragEnd s = Some p2"
  shows "measurements (handleMouseUp now s) =
           measurements s @
           [\<lparr>id' = now, points = (p1, p2),
             pixelDistance =
               Math_sqrt (js_add (js_sq (js_sub (x p2) (x p1))) (js_sq (js_sub (y p2) (y p1))))\<rparr>] \<and>
         is_double (pixelDistance (last (measurements (handleMouseUp now s)))) \<and>
         (x p1 = Num a \<and> y p1 = Num b \<and> x p2 = Num c \<and> y p2 = Num d \<and>
          is_double (Num (c - a)) \<and> is_double (Num (d - b)) \<and>
          is_double (Num ((c - a) ^ 2)) \<and> is_double (Num ((d - b) ^ 2)) \<and>
          is_double (Num ((c - a) ^ 2 + (d - b) ^ 2)) \<and>
          is_double (Num (sqrt ((c - a) ^ 2 + (d - b) ^ 2))) \<longrightarrow>
            pixelDistance (last (measurements (handleMouseUp now s))) =
              Num (sqrt ((c - a) ^ 2 + (d - b) ^ 2))) \<and>
         (x p1 = Num a \<and> y p1 = Num b \<and> x p2 = Num c \<and> y p2 = Num d \<and>
          is_double (Num (c - a)) \<and> 2 ^ 512 \<le> \<bar>c - a\<bar> \<longrightarrow>
            pixelDistance (last (measurements (handleMouseUp now s))) = PosInf)"
  using assms
  by (simp add: commit is_double_Math_sqrt euclid_exact euclid_overflow del: Math_sqrt.simps)

theorem commit_appends_measurement_witness:
  "isDragging dragging_A \<and>
   dragStart dragging_A = Some \<lparr>x = Num 0, y = Num 0, page = 1\<rparr> \<and>
   dragEnd dragging_A = Some \<lparr>x = Num 3, y = Num 4, page = 1\<rparr> \<and>
   is_double (Num (3 - 0)) \<and> is_double (Num (4 - 0)) \<and>
   is_double (Num ((3 - 0) ^ 2)) \<and> is_double (Num ((4 - 0) ^ 2)) \<and>
   is_double (Num ((3 - 0) ^ 2 + (4 - 0) ^ 2)) \<and>
   is_double (Num (sqrt ((3 - 0) ^ 2 + (4 - 0) ^ 2))) \<and>
   measurements (handleMouseUp 7 dragging_A) = measurements dragging_A @ [measurement_A 7] \<and>
   pixelDistance (last (measurements (handleMouseUp 7 dragging_A))) = Num 5 \<and>
   dragEnd (dragging_A\<lparr>dragEnd := Some \<lparr>x = Num (2 ^ 600), y = Num 4, page = 1\<rparr>\<rparr>) =
     Some \<lparr>x = Num (2 ^ 600), y = Num 4, page = 1\<rparr> \<and>
   is_double (Num (2 ^ 600 - 0)) \<and> (2::real) ^ 512 \<le> \<bar>2 ^ 600 - 0\<bar> \<and>
   pixelDistance
     (last (measurements
       (handleMouseUp 7
         (dragging_A\<lparr>dragEnd := Some \<lparr>x = Num (2 ^ 600), y = Num 4, page = 1\<rparr>\<rparr>)))) = PosInf"
proof -
  have big: "is_double (Num (2 ^ 600 - 0))"
    using js_round_exact [of "2 ^ 600" 1 600] by (simp add: is_double_def)
  have large: "(2::real) ^ 512 \<le> \<bar>2 ^ 600 - 0\<bar>"
    by simp
  have drag: "isDragging (dragging_A\<lparr>dragEnd := Some \<lparr>x = Num (2 ^ 600), y = Num 4, page = 1\<rparr>\<rparr>)"
    "dragStart (dragging_A\<lparr>dragEnd := Some \<lparr>x = Num (2 ^ 600), y = Num 4, page = 1\<rparr>\<rparr>) =
       Some \<lparr>x = Num 0, y = Num 0, page = 1\<rparr>"
    "dragEnd (dragging_A\<lparr>dragEnd := Some \<lparr>x = Num (2 ^ 600), y = Num 4, page = 1\<rparr>\<rparr>) =
       Some \<lparr>x = Num (2 ^ 600), y = Num 4, page = 1\<rparr>"
    by (simp_all add: dragging_A_eq)
  have overflow: "pixelDistance
     (last (measurements
       (handleMouseUp 7
         (dragging_A\<lparr>dragEnd := Some \<lparr>x = Num (2 ^ 600), y = Num 4, page = 1\<rparr>\<rparr>)))) = PosInf"
    by (rule commit_appends_measurement [OF drag, of 7 0 0 "2 ^ 600" 4,
          THEN conjunct2, THEN conjunct2, THEN conjunct2, THEN mp])
      (use big large in simp)
  have exact: "measurements (handleMouseUp 7 dragging_A) = measurements dragging_A @ [measurement_A 7] \<and>
      pixelDistance (last (measurements (handleMouseUp 7 dragging_A))) = Num 5"
    using commit_appends_measurement [of dragging_A "\<lparr>x = Num 0, y = Num 0, page = 1\<rparr>"
        "\<lparr>x = Num 3, y = Num 4, page = 1\<rparr>" 7 0 0 3 4]
    by (simp add: dragging_A_eq init_def measurement_A_def is_double_def arith_defs)
  have first: "isDragging dragging_A \<and>
      dragStart dragging_A = Some \<lparr>x = Num 0, y = Num 0, page = 1\<rparr> \<and>
      dragEnd dragging_A = Some \<lparr>x = Num 3, y = Num 4, page = 1\<rparr>"
    by (simp add: dragging_A_eq)
  have small: "is_double (Num (3 - 0)) \<and> is_double (Num (4 - 0)) \<and>
      is_double (Num ((3 - 0) ^ 2)) \<and> is_double (Num ((4 - 0) ^ 2)) \<and>
      is_double (Num ((3 - 0) ^ 2 + (4 - 0) ^ 2)) \<and>
      is_double (Num (sqrt ((3 - 0) ^ 2 + (4 - 0) ^ 2)))"
    by (simp add: is_double_def arith_defs)
  from first small exact drag(3) big large overflow show ?thesis
    by blast
qed

section \<open>Document change\<close>

text \<open>
  C8. Loading a new file, in any state, empties the measurements, the undo stack and the
  redo stack and sets the calibration factor to absent.
\<close>

theorem file_change_resets:
  "measurements (onFileChange nextFile s) = [] \<and>
   history (onFileChange nextFile s) = [] \<and>
   redoStack (onFileChange nextFile s) = [] \<and>
   scaleFactor (onFileChange nextFile s) = None"
  by (simp add: onFileChange_def)

section \<open>Pages of a measurement\<close>

lemma run_append: "run s (es @ fs) = run (run s es) fs"
  by (induction es arbitrary: s) simp_all

lemma pages_inv_init: "pages_inv init"
  by (simp add: pages_inv_def drag_on_page_def init_def)

lemma pages_inv_commit:
  assumes "pages_inv s" and "isDragging s" and "dragStart s = Some p1" and "dragEnd s = Some p2"
  shows "pages_inv (handleMouseUp now s)"
  using assms by (auto simp: commit pages_inv_def drag_on_page_def same_page_def)

lemma pages_inv_no_commit:
  assumes "pages_inv s" and "\<not> isDragging s \<or> dragStart s = None \<or> dragEnd s = None"
  shows "pages_inv (handleMouseUp now s)"
  using assms by (auto simp: no_commit pages_inv_def drag_on_page_def split: option.splits)

lemma pages_inv_mouse_up: "pages_inv s \<Longrightarrow> pages_inv (handleMouseUp now s)"
  by (cases "isDragging s"; cases "dragStart s"; cases "dragEnd s")
    (simp_all add: pages_inv_commit pages_inv_no_commit)

lemma pages_inv_undo: "pages_inv s \<Longrightarrow> pages_inv (handleUndo s)"
  by (cases "history s" rule: rev_cases)
    (auto simp: handleUndo_def pages_inv_def drag_on_page_def nth_append split: option.splits)

lemma pages_inv_redo: "pages_inv s \<Longrightarrow> pages_inv (handleRedo s)"
  by (cases "redoStack s")
    (auto simp: handleRedo_def pages_inv_def drag_on_page_def split: option.splits)

lemma pages_inv_mouse_move: "pages_inv s \<Longrightarrow> pages_inv (completed s (handleMouseMove e s))"
  by (auto simp: handleMouseMove_def pages_inv_def drag_on_page_def split: option.splits)

lemma pages_inv_step: "pages_inv s \<Longrightarrow> pages_inv (step e s)"
proof (cases e)
  case (MouseUp now)
  assume "pages_inv s"
  then show ?thesis using MouseUp by (simp add: pages_inv_mouse_up)
next
  case Undo
  assume "pages_inv s"
  then show ?thesis using Undo by (simp add: pages_inv_undo)
next
  case Redo
  assume "pages_inv s"
  then show ?thesis using Redo by (simp add: pages_inv_redo)
next
  case (MouseMove e)
  assume "pages_inv s"
  then show ?thesis using MouseMove by (simp add: pages_inv_mouse_move)
qed (auto simp: pages_inv_def drag_on_page_def onFileChange_def onDocumentLoadSuccess_def
      handleMouseDown_def split: option.splits)

lemma pages_inv_run: "pages_inv s \<Longrightarrow> pages_inv (run s es)"
  by (induction es arbitrary: s) (simp_all add: pages_inv_step)

lemma dragging_on_press: "dragging_on pg (step (MouseDown e pg) s)"
  by (simp add: dragging_on_def handleMouseDown_def)

lemma dragging_on_step:
  "dragging_on pg s \<Longrightarrow> \<not> press_or_release e \<Longrightarrow> dragging_on pg (step e s)"
  by (cases e)
    (auto simp: dragging_on_def onFileChange_def onDocumentLoadSuccess_def handleMouseMove_def
      handleUndo_def handleRedo_def split: option.splits)

lemma dragging_on_run:
  "dragging_on pg s \<Longrightarrow> list_all (\<lambda>e. \<not> press_or_release e) es \<Longrightarrow> dragging_on pg (run s es)"
  by (induction es arbitrary: s) (simp_all add: dragging_on_step)

lemma dragging_on_release:
  assumes "dragging_on pg s"
  shows "measurements (handleMouseUp now s) = measurements s \<or>
         (\<exists>m. measurements (handleMouseUp now s) = measurements s @ [m] \<and> on_page pg m)"
proof (cases "dragEnd s")
  case None
  then show ?thesis by (simp add: no_commit)
next
  case (Some p2)
  from assms obtain p1 where "dragStart s = Some p1" and "page p1 = pg"
    by (auto simp: dragging_on_def split: option.splits)
  moreover from assms Some have "isDragging s" and "page p2 = pg"
    by (simp_all add: dragging_on_def)
  ultimately show ?thesis
    using Some by (simp add: commit on_page_def)
qed

text \<open>
  C5. In every state reached from the initial one, the two points of each stored
  measurement have the same page number. That page is the page of the press that began
  the drag: whatever happens between a press on page \<open>pg\<close> and the next release, other
  than a press or a release, the release leaves the measurements as they were or appends
  one whose two points are both on page \<open>pg\<close>.
\<close>

theorem measurements_same_page:
  "list_all same_page (measurements (run init evs)) \<and>
   (list_all (\<lambda>e. \<not> press_or_release e) moves \<longrightarrow>
      measurements (run init (evs @ MouseDown e pg # moves @ [MouseUp now])) =
        measurements (run init (evs @ MouseDown e pg # moves)) \<or>
      (\<exists>m. measurements (run init (evs @ MouseDown e pg # moves @ [MouseUp now])) =
              measurements (run init (evs @ MouseDown e pg # moves)) @ [m] \<and> on_page pg m))"
proof -
  have "pages_inv (run init evs)"
    by (simp add: pages_inv_run pages_inv_init)
  then have first: "list_all same_page (measurements (run init evs))"
    by (simp add: pages_inv_def)
  have second: "measurements (run init (evs @ MouseDown e pg # moves @ [MouseUp now])) =
        measurements (run init (evs @ MouseDown e pg # moves)) \<or>
      (\<exists>m. measurements (run init (evs @ MouseDown e pg # moves @ [MouseUp now])) =
              measurements (run init (evs @ MouseDown e pg # moves)) @ [m] \<and> on_page pg m)"
    if "list_all (\<lambda>e. \<not> press_or_release e) moves"
  proof -
    have "dragging_on pg (run (step (MouseDown e pg) (run init evs)) moves)"
      using that by (rule dragging_on_run [OF dragging_on_press])
    then have "dragging_on pg (run init (evs @ MouseDown e pg # moves))"
      by (simp add: run_append)
    from dragging_on_release [OF this, of now] show ?thesis
      by (simp add: run_append)
  qed
  from first second show ?thesis by blast
qed

theorem measurements_same_page_witness:
  "list_all (\<lambda>e. \<not> press_or_release e) [MouseMove (at_pointer 125 230)] \<and>
   list_all same_page (measurements (run init (gesture_A 1000))) \<and>
   measurements (run init (gesture_A 1000)) = [measurement_A 1000] \<and>
   measurements (run init (gesture_A 1000 @ gesture_B 2000)) =
     [measurement_A 1000, measurement_B 2000] \<and>
   on_page 2 (measurement_B 2000)"
  using measurements_same_page [of "gesture_A 1000" "[MouseMove (at_pointer 125 230)]"
      "at_pointer 110 210" 2 2000]
  by (simp add: handler_defs example_defs on_page_def)

section \<open>Order of redo\<close>

text \<open>
  After the commits of A and B and two undos, the redo stack holds the snapshot queued by
  the second undo in front of the one queued by the first. Redo installs the front one,
  queued last, and not the oldest one.
\<close>

theorem redo_fifo_counterexample:
  "redoStack two_undone = [[measurement_A 1000], [measurement_A 1000, measurement_B 2000]] \<and>
   last (redoStack two_undone) = [measurement_A 1000, measurement_B 2000] \<and>
   measurements (handleRedo two_undone) = [measurement_A 1000] \<and>
   measurements (handleRedo two_undone) \<noteq> last (redoStack two_undone)"
  by (simp add: two_undone_eq handleRedo_def)

lemma history_undo: "length (history (handleUndo s)) = length (history s) - 1"
  by (simp add: handleUndo_def)

lemma redo_undo_funpow:
  "n \<le> length (history s) \<Longrightarrow> (handleRedo ^^ n) ((handleUndo ^^ n) s) = s"
proof (induction n arbitrary: s)
  case 0
  then show ?case by simp
next
  case (Suc n)
  then have "n \<le> length (history (handleUndo s))" and "history s \<noteq> []"
    by (auto simp: history_undo)
  then have "(handleRedo ^^ n) ((handleUndo ^^ n) (handleUndo s)) = handleUndo s"
    and "handleRedo (handleUndo s) = s"
    by (simp_all add: Suc.IH redo_undo)
  then show ?case
    by (simp add: funpow_swap1)
qed

text \<open>
  C6 (amended). Redo is last-in-first-out with respect to the undos: an undo puts the
  current measurements in front of the redo stack, a redo installs the front snapshot and
  leaves the older ones queued, so the action undone last is redone first; and \<open>n\<close>
  undos followed by \<open>n\<close> redos give back the state they started from, when the undo
  stack held at least \<open>n\<close> snapshots.
\<close>

theorem redo_lifo:
  "(history s \<noteq> [] \<longrightarrow> redoStack (handleUndo s) = measurements s # redoStack s) \<and>
   (redoStack t = r # rs \<longrightarrow>
      measurements (handleRedo t) = r \<and> redoStack (handleRedo t) = rs) \<and>
   (n \<le> length (history u) \<longrightarrow> (handleRedo ^^ n) ((handleUndo ^^ n) u) = u)"
  by (simp add: redo_undo_funpow handleUndo_def handleRedo_def)

theorem redo_lifo_witness:
  "history two_committed \<noteq> [] \<and>
   redoStack (handleUndo two_committed) = [[measurement_A 1000, measurement_B 2000]] \<and>
   redoStack two_undone = [[measurement_A 1000], [measurement_A 1000, measurement_B 2000]] \<and>
   measurements (handleRedo two_undone) = [measurement_A 1000] \<and>
   redoStack (handleRedo two_undone) = [[measurement_A 1000, measurement_B 2000]] \<and>
   (2::nat) \<le> length (history two_committed) \<and>
   (handleUndo ^^ 2) two_committed = two_undone \<and>
   (handleRedo ^^ 2) two_undone = two_committed"
  using redo_lifo [of two_committed two_undone "[measurement_A 1000]"
      "[[measurement_A 1000, measurement_B 2000]]" 2 two_committed]
  by (simp add: two_committed_eq two_undone_eq init_def handleUndo_def handleRedo_def
      numeral_2_eq_2)

section \<open>Normalisation of pointer coordinates\<close>

text \<open>
  With a zoom scale of \<open>-2\<close> a press is handled like any other: the handler returns
  normally and stores the offsets divided by the scale.
\<close>

theorem invalid_scale_counterexample:
  "handleMouseDown (at_pointer 110 210) 1 (init\<lparr>scale := Num (- 2)\<rparr>) =
     Inr (init\<lparr>scale := Num (- 2),
               dragStart := Some \<lparr>x = Num (- 5), y = Num (- 5), page = 1\<rparr>,
               dragEnd := None,
               dragPage := Some 1,
               isDragging := True\<rparr>) \<and>
   handleMouseDown (at_pointer 110 210) 1 (init\<lparr>scale := Num (- 2)\<rparr>) \<noteq> Inl InvalidScaleError"
  by (simp add: handleMouseDown_def at_pointer_def arith_defs init_def)

text \<open>
  C7 (amended). For every pointer input and every zoom scale, positive or not, the
  normalisation does not fail. The press handler returns normally and stores, as the
  start of the drag on the pressed page, the offsets divided by the scale. The move
  handler returns normally too: while a drag is under way it stores the offsets divided by
  the scale as the end of the drag, on the page of the drag, and otherwise it leaves the
  state as it is. The division is the one of double arithmetic: for a finite non-zero
  offset and a finite non-zero scale, of either sign, the quotient rounded to the nearest
  double; for a zero scale an infinity, by the signs of the offset and of the zero, or
  NaN when the offset is zero too.
\<close>

theorem normalisation_never_fails:
  "(\<exists>s'. handleMouseDown e pageNumber s = Inr s' \<and>
         dragStart s' =
           Some \<lparr>x = js_div (js_sub (clientX e) (rect_left e)) (scale s),
                 y = js_div (js_sub (clientY e) (rect_top e)) (scale s),
                 page = pageNumber\<rparr>) \<and>
   (isDragging s \<and> dragStart s \<noteq> None \<and> dragPage s = Some pg \<longrightarrow>
      (\<exists>s'. handleMouseMove e s = Inr s' \<and>
         dragEnd s' =
           Some \<lparr>x = js_div (js_sub (clientX e) (rect_left e)) (scale s),
                 y = js_div (js_sub (clientY e) (rect_top e)) (scale s),
                 page = pg\<rparr>)) \<and>
   (\<not> isDragging s \<or> dragStart s = None \<or> dragPage s = None \<longrightarrow> handleMouseMove e s = Inr s) \<and>
   (a \<noteq> 0 \<and> b \<noteq> 0 \<longrightarrow> js_div (Num a) (Num b) = js_round (a / b)) \<and>
   (a \<noteq> 0 \<longrightarrow>
      js_div (Num a) (Num 0) = (if a < 0 then NegInf else PosInf) \<and>
      js_div (Num a) NegZero = (if a < 0 then PosInf else NegInf)) \<and>
   js_div (Num 0) (Num 0) = NaN \<and> js_div (Num 0) NegZero = NaN"
  by (auto simp: handleMouseDown_def handleMouseMove_def js_div_def js_signed_inf_def)

lemma js_round_10_3: "js_round (10 / 3) = Num (7505999378950827 / 2251799813685248)"
proof -
  have "js_round (10 / 3) = Num (of_int 7505999378950827 * 2 powi (1 - 52))"
    by (intro js_round_near) (simp_all add: abs_less_iff)
  then show ?thesis by simp
qed

theorem normalisation_never_fails_witness:
  "(\<exists>s'. handleMouseDown (at_pointer 110 210) 1 (init\<lparr>scale := Num 0\<rparr>) = Inr s' \<and>
         dragStart s' = Some \<lparr>x = PosInf, y = PosInf, page = 1\<rparr>) \<and>
   isDragging (dragging_A\<lparr>scale := Num (- 2)\<rparr>) \<and>
   dragStart (dragging_A\<lparr>scale := Num (- 2)\<rparr>) \<noteq> None \<and>
   dragPage (dragging_A\<lparr>scale := Num (- 2)\<rparr>) = Some 1 \<and>
   (\<exists>s'. handleMouseMove (at_pointer 110 210) (dragging_A\<lparr>scale := Num (- 2)\<rparr>) = Inr s' \<and>
         dragEnd s' = Some \<lparr>x = Num (- 5), y = Num (- 5), page = 1\<rparr>) \<and>
   \<not> isDragging init \<and> handleMouseMove (at_pointer 110 210) init = Inr init \<and>
   (10::real) \<noteq> 0 \<and> (- 2::real) \<noteq> 0 \<and> js_div (Num 10) (Num (- 2)) = Num (- 5) \<and>
   (3::real) \<noteq> 0 \<and> js_div (Num 10) (Num 3) = Num (7505999378950827 / 2251799813685248) \<and>
   js_div (Num 10) (Num 0) = PosInf \<and> js_div (Num 10) NegZero = NegInf"
  using normalisation_never_fails [of "at_pointer 110 210" 1 "init\<lparr>scale := Num 0\<rparr>" 1 10 "- 2"]
    normalisation_never_fails [of "at_pointer 110 210" 1 "dragging_A\<lparr>scale := Num (- 2)\<rparr>" 1 10 "- 2"]
    normalisation_never_fails [of "at_pointer 110 210" 1 init 1 10 3]
  by (simp add: dragging_A_eq at_pointer_def arith_defs init_def js_round_10_3)

section \<open>Ids of measurements\<close>

text \<open>
  C9. The id of a measurement is the reading of the clock at its commit. Two drags
  committed at the same reading get the same id, and the ids of the stored measurements
  are then not pairwise distinct.
\<close>

theorem duplicate_ids:
  "measurements (run init (gesture_A 1000 @ gesture_B 1000)) =
     [measurement_A 1000, measurement_B 1000] \<and>
   map id' (measurements (run init (gesture_A 1000 @ gesture_B 1000))) = [1000, 1000] \<and>
   \<not> distinct (map id' (measurements (run init (gesture_A 1000 @ gesture_B 1000))))"
  by (simp add: handler_defs example_defs)

section \<open>Calibration factor\<close>

text \<open>
  The initial state, before any event, has a calibration factor: the table's entry for
  the default key.
\<close>

theorem initial_calibration_counterexample:
  "run init [] = init \<and> scaleFactor init = Some (js_round 0.1661) \<and> scaleFactor init \<noteq> None"
  by (simp add: init_def drawingCalibrations_def defaultCalibrationValue_def)

lemma scaleFactor_step:
  "\<not> is_SetScaleFactor e \<Longrightarrow>
   scaleFactor (step e s) = (if is_FileChange e then None else scaleFactor s)"
  by (cases e)
    (auto simp: handler_defs split: option.splits bool.splits)

lemma scaleFactor_run:
  "list_all (\<lambda>e. \<not> is_SetScaleFactor e) evs \<Longrightarrow>
   scaleFactor (run s evs) = (if list_ex is_FileChange evs then None else scaleFactor s)"
  by (induction evs arbitrary: s) (simp_all add: scaleFactor_step)

text \<open>
  C10 (amended). The initial state is calibrated with the table's entry for the default
  key \<open>125\<close>, that is the number 0.1661. As long as nothing is set through the setter handed to the
  calibration selector, the factor is that entry until the first document change and
  absent from then on.
\<close>

theorem calibration_without_selection:
  "list_all (\<lambda>e. \<not> is_SetScaleFactor e) evs \<Longrightarrow>
   scaleFactor init = drawingCalibrations defaultCalibrationValue \<and>
   drawingCalibrations defaultCalibrationValue = Some (js_round 0.1661) \<and>
   scaleFactor (run init evs) =
     (if list_ex is_FileChange evs then None else Some (js_round 0.1661))"
  by (simp add: scaleFactor_run) (simp add: init_def drawingCalibrations_def defaultCalibrationValue_def)

theorem calibration_without_selection_witness:
  "list_all (\<lambda>e. \<not> is_SetScaleFactor e) (gesture_A 1000 @ [Undo, SetScale (Num 2)]) \<and>
   scaleFactor (run init (gesture_A 1000 @ [Undo, SetScale (Num 2)])) = Some (js_round 0.1661) \<and>
   list_all (\<lambda>e. \<not> is_SetScaleFactor e) (gesture_A 1000 @ [FileChange None, Redo]) \<and>
   scaleFactor (run init (gesture_A 1000 @ [FileChange None, Redo])) = None"
  using calibration_without_selection [of "gesture_A 1000 @ [Undo, SetScale (Num 2)]"]
    calibration_without_selection [of "gesture_A 1000 @ [FileChange None, Redo]"]
  by (simp add: gesture_A_def)

section \<open>Displayed distance\<close>






















end
